theory Spec2Isabelle
  imports Complex_Main
begin

section \<open>The drawing surface\<close>

text \<open>
  \<^verbatim>\<open>generate_icons.py\<close> draws through the imaging library's \<^verbatim>\<open>ImageDraw\<close> object. The
  library is not part of the repository, so a canvas is modelled by what the script
  does to it: the arguments of \<^verbatim>\<open>Image.new\<close> and the ordered log of the drawing calls
  made on it. Two canvases with the same creation arguments and the same log are the
  same picture, whatever the library paints for each call.

  A colour is the Python tuple of channel values that the script passes as \<^verbatim>\<open>fill\<close> or
  \<^verbatim>\<open>outline\<close>: three channels for the named constants, four once an alpha value has
  been appended with \<^verbatim>\<open>(*COLOR, alpha)\<close>.
\<close>

type_synonym colour = "int list"
type_synonym point = "int \<times> int"
type_synonym box = "int \<times> int \<times> int \<times> int"

datatype draw_call =
    Line point point colour int
      \<comment> \<open>\<^verbatim>\<open>draw.line([p, q], fill=, width=)\<close>\<close>
  | Rectangle box "colour option" "colour option" int
      \<comment> \<open>\<^verbatim>\<open>draw.rectangle([x0, y0, x1, y1], fill=, outline=, width=)\<close>\<close>
  | Arc box int int colour int
      \<comment> \<open>\<^verbatim>\<open>draw.arc([x0, y0, x1, y1], start, end, fill=, width=)\<close>\<close>
  | Ellipse box "colour option" "colour option" int
      \<comment> \<open>\<^verbatim>\<open>draw.ellipse([x0, y0, x1, y1], fill=, outline=, width=)\<close>\<close>

record canvas =
  im_mode :: string
  im_size :: "int \<times> int"
  im_color :: colour
  im_calls :: "draw_call list"

text \<open>
  Images are mutable objects: \<^verbatim>\<open>Image.new\<close> allocates one, \<^verbatim>\<open>ImageDraw.Draw(img)\<close>
  is a handle that draws into it. The heap is the list of the images allocated so far;
  an image is named by its position.
\<close>

type_synonym heap = "canvas list"

definition Image_new :: "string \<Rightarrow> int \<times> int \<Rightarrow> colour \<Rightarrow> heap \<Rightarrow> nat \<times> heap" where
  "Image_new mode sz color H =
     (length H, H @ [\<lparr>im_mode = mode, im_size = sz, im_color = color, im_calls = []\<rparr>])"

definition ImageDraw_Draw :: "nat \<Rightarrow> nat" where
  "ImageDraw_Draw img = img"

definition record_call :: "nat \<Rightarrow> draw_call \<Rightarrow> heap \<Rightarrow> heap" where
  "record_call draw c H = H[draw := (H ! draw)\<lparr>im_calls := im_calls (H ! draw) @ [c]\<rparr>]"

definition draw_line :: "nat \<Rightarrow> point \<Rightarrow> point \<Rightarrow> colour \<Rightarrow> int \<Rightarrow> heap \<Rightarrow> heap" where
  "draw_line draw p q fill width = record_call draw (Line p q fill width)"

definition draw_rectangle ::
  "nat \<Rightarrow> box \<Rightarrow> colour option \<Rightarrow> colour option \<Rightarrow> int \<Rightarrow> heap \<Rightarrow> heap" where
  "draw_rectangle draw xy fill outline width = record_call draw (Rectangle xy fill outline width)"

definition draw_arc :: "nat \<Rightarrow> box \<Rightarrow> int \<Rightarrow> int \<Rightarrow> colour \<Rightarrow> int \<Rightarrow> heap \<Rightarrow> heap" where
  "draw_arc draw xy start stop fill width = record_call draw (Arc xy start stop fill width)"

definition draw_ellipse ::
  "nat \<Rightarrow> box \<Rightarrow> colour option \<Rightarrow> colour option \<Rightarrow> int \<Rightarrow> heap \<Rightarrow> heap" where
  "draw_ellipse draw xy fill outline width = record_call draw (Ellipse xy fill outline width)"

text \<open>The calls a heap transformer added to the log of one canvas.\<close>

definition drawn_by :: "(heap \<Rightarrow> heap) \<Rightarrow> nat \<Rightarrow> heap \<Rightarrow> draw_call list" where
  "drawn_by f draw H = drop (length (im_calls (H ! draw))) (im_calls (f H ! draw))"

section \<open>The rounded-rectangle primitives\<close>

text \<open>
  \<^verbatim>\<open>draw_rounded_rect\<close> (lines 132-161) and \<^verbatim>\<open>draw_filled_rounded_rect\<close> (lines 164-187).
  Both first order the corners, then clamp the radius to half the shorter side with
  Python's floor division, then either fall back to one rectangle call or issue the
  straight pieces followed by the four corners. \<^verbatim>\<open>fill=color\<close> without a width uses the
  library's default width 1.
\<close>

definition draw_rounded_rect ::
  "nat \<Rightarrow> int \<Rightarrow> int \<Rightarrow> int \<Rightarrow> int \<Rightarrow> int \<Rightarrow> colour \<Rightarrow> int \<Rightarrow> heap \<Rightarrow> heap" where
  "draw_rounded_rect draw x1 y1 x2 y2 radius color width H =
     (let (x1, x2) = (if x2 < x1 then (x2, x1) else (x1, x2));
          (y1, y2) = (if y2 < y1 then (y2, y1) else (y1, y2));
          max_radius = min ((x2 - x1) div 2) ((y2 - y1) div 2);
          radius = min radius max_radius
      in if radius \<le> 0 then
           draw_rectangle draw (x1, y1, x2, y2) None (Some color) width H
         else
           let H = draw_line draw (x1 + radius, y1) (x2 - radius, y1) color width H;
               H = draw_line draw (x1 + radius, y2) (x2 - radius, y2) color width H;
               H = draw_line draw (x1, y1 + radius) (x1, y2 - radius) color width H;
               H = draw_line draw (x2, y1 + radius) (x2, y2 - radius) color width H;
               H = draw_arc draw (x1, y1, x1 + radius * 2, y1 + radius * 2) 180 270 color width H;
               H = draw_arc draw (x2 - radius * 2, y1, x2, y1 + radius * 2) 270 360 color width H;
               H = draw_arc draw (x1, y2 - radius * 2, x1 + radius * 2, y2) 90 180 color width H;
               H = draw_arc draw (x2 - radius * 2, y2 - radius * 2, x2, y2) 0 90 color width H
           in H)"

definition draw_filled_rounded_rect ::
  "nat \<Rightarrow> int \<Rightarrow> int \<Rightarrow> int \<Rightarrow> int \<Rightarrow> int \<Rightarrow> colour \<Rightarrow> heap \<Rightarrow> heap" where
  "draw_filled_rounded_rect draw x1 y1 x2 y2 radius color H =
     (let (x1, x2) = (if x2 < x1 then (x2, x1) else (x1, x2));
          (y1, y2) = (if y2 < y1 then (y2, y1) else (y1, y2));
          max_radius = min ((x2 - x1) div 2) ((y2 - y1) div 2);
          radius = min radius max_radius
      in if radius \<le> 0 then
           draw_rectangle draw (x1, y1, x2, y2) (Some color) None 1 H
         else
           let H = draw_rectangle draw (x1 + radius, y1, x2 - radius, y2) (Some color) None 1 H;
               H = draw_rectangle draw (x1, y1 + radius, x2, y2 - radius) (Some color) None 1 H;
               H = draw_ellipse draw (x1, y1, x1 + radius * 2, y1 + radius * 2) (Some color) None 1 H;
               H = draw_ellipse draw (x2 - radius * 2, y1, x2, y1 + radius * 2) (Some color) None 1 H;
               H = draw_ellipse draw (x1, y2 - radius * 2, x1 + radius * 2, y2) (Some color) None 1 H;
               H = draw_ellipse draw (x2 - radius * 2, y2 - radius * 2, x2, y2) (Some color) None 1 H
           in H)"

section \<open>Python numbers and ranges\<close>

text \<open>
  \<^verbatim>\<open>scale = size / 512\<close> is Python's true division and gives a float; every length
  is then \<^verbatim>\<open>int(k * scale)\<close>, which truncates towards zero. Dividing by 512 only changes
  the exponent, and \<^verbatim>\<open>k * scale\<close> with \<open>k \<le> 100\<close> is exact as long as \<open>k * size\<close> stays
  below \<open>2^53\<close>, far beyond any canvas that can be allocated. On that range the float
  is the rational number it stands for, so \<open>scale\<close> is modelled as a rational.
\<close>

definition scale :: "int \<Rightarrow> rat" where
  "scale sz = of_int sz / 512"

definition py_int :: "rat \<Rightarrow> int" where
  "py_int q = (if 0 \<le> q then \<lfloor>q\<rfloor> else \<lceil>q\<rceil>)"

text \<open>
  \<^verbatim>\<open>range(start, stop, step)\<close>. The script only uses the literal steps \<open>-1\<close> and \<open>4\<close> and a
  step guarded by \<^verbatim>\<open>grid_spacing > 2\<close>; step 0, where Python raises, is never reached and
  gives the empty list here.
\<close>

function py_range :: "int \<Rightarrow> int \<Rightarrow> int \<Rightarrow> int list" where
  "py_range start stop step =
     (if 0 < step then (if start < stop then start # py_range (start + step) stop step else [])
      else if step < 0 then (if stop < start then start # py_range (start + step) stop step else [])
      else [])"
  by pat_completeness auto
termination
  by (relation "measure (\<lambda>(start, stop, step). nat (if 0 < step then stop - start else start - stop))")
     auto

declare py_range.simps [simp del]

text \<open>\<^verbatim>\<open>str(n)\<close> for an integer, as the f-string of the manifest formats it.\<close>

definition digit_chars :: string where
  "digit_chars = ''0123456789''"

fun str_nat :: "nat \<Rightarrow> string" where
  "str_nat n = (if n < 10 then [digit_chars ! n] else str_nat (n div 10) @ [digit_chars ! (n mod 10)])"

declare str_nat.simps [simp del]

definition py_str :: "int \<Rightarrow> string" where
  "py_str i = (if i < 0 then ''-'' @ str_nat (nat (- i)) else str_nat (nat i))"

section \<open>The composition routine\<close>

text \<open>The module constants (lines 13-32).\<close>

definition SIZES :: "(int \<times> string \<times> string) list" where
  "SIZES =
     [(16, ''1x'', ''icon_16x16.png''),
      (32, ''2x'', ''icon_16x16@2x.png''),
      (32, ''1x'', ''icon_32x32.png''),
      (64, ''2x'', ''icon_32x32@2x.png''),
      (128, ''1x'', ''icon_128x128.png''),
      (256, ''2x'', ''icon_128x128@2x.png''),
      (256, ''1x'', ''icon_256x256.png''),
      (512, ''2x'', ''icon_256x256@2x.png''),
      (512, ''1x'', ''icon_512x512.png''),
      (1024, ''2x'', ''icon_512x512@2x.png'')]"

definition DARK_BG :: colour where "DARK_BG = [10, 10, 15]"
definition NEON_CYAN :: colour where "NEON_CYAN = [0, 255, 255]"
definition NEON_MAGENTA :: colour where "NEON_MAGENTA = [255, 0, 150]"
definition NEON_BLUE :: colour where "NEON_BLUE = [30, 144, 255]"
definition GRID_COLOR :: colour where "GRID_COLOR = [0, 80, 100]"

text \<open>
  The local variables of \<^verbatim>\<open>create_cyberpunk_icon\<close> (lines 35-129), each a function of the
  target size, and then its drawing passes in the order of the source. The variable
  \<^verbatim>\<open>content_size\<close> of line 54 is never read and is left out.
\<close>

definition grid_spacing :: "int \<Rightarrow> int" where
  "grid_spacing sz = py_int (32 * scale sz)"

definition padding :: "int \<Rightarrow> int" where
  "padding sz = py_int (60 * scale sz)"

definition border_width :: "int \<Rightarrow> int" where
  "border_width sz = max 2 (py_int (8 * scale sz))"

definition corner_radius :: "int \<Rightarrow> int" where
  "corner_radius sz = py_int (80 * scale sz)"

definition grid_padding :: "int \<Rightarrow> int" where
  "grid_padding sz = py_int (100 * scale sz)"

definition grid_size :: "int \<Rightarrow> int" where
  "grid_size sz = sz - (grid_padding sz * 2)"

definition cell_gap :: "int \<Rightarrow> int" where
  "cell_gap sz = py_int (16 * scale sz)"

definition cell_size :: "int \<Rightarrow> int" where
  "cell_size sz = (grid_size sz - cell_gap sz) div 2"

definition tile_positions :: "int \<Rightarrow> (int \<times> int) list" where
  "tile_positions sz =
     [(grid_padding sz, grid_padding sz),
      (grid_padding sz + cell_size sz + cell_gap sz, grid_padding sz),
      (grid_padding sz, grid_padding sz + cell_size sz + cell_gap sz),
      (grid_padding sz + cell_size sz + cell_gap sz, grid_padding sz + cell_size sz + cell_gap sz)]"

definition tile_colors :: "colour list" where
  "tile_colors = [NEON_CYAN, NEON_MAGENTA, NEON_BLUE, NEON_CYAN]"

definition accent_len :: "int \<Rightarrow> int" where
  "accent_len sz = py_int (30 * scale sz)"

definition accent_width :: "int \<Rightarrow> int" where
  "accent_width sz = max 2 (py_int (4 * scale sz))"

text \<open>Lines 44-50: the background grid.\<close>

definition background_grid :: "int \<Rightarrow> nat \<Rightarrow> heap \<Rightarrow> heap" where
  "background_grid sz draw H =
     (if grid_spacing sz > 2 then
        let H = fold (\<lambda>x. draw_line draw (x, 0) (x, sz) (GRID_COLOR @ [40]) (max 1 (py_int (scale sz))))
                  (py_range 0 sz (grid_spacing sz)) H;
            H = fold (\<lambda>y. draw_line draw (0, y) (sz, y) (GRID_COLOR @ [40]) (max 1 (py_int (scale sz))))
                  (py_range 0 sz (grid_spacing sz)) H
        in H
      else H)"

text \<open>Lines 60-70: three glow outlines, then the main border.\<close>

definition outer_border :: "int \<Rightarrow> nat \<Rightarrow> heap \<Rightarrow> heap" where
  "outer_border sz draw H =
     (let H = fold (\<lambda>i. draw_rounded_rect draw (padding sz - i * 2) (padding sz - i * 2)
                          (sz - padding sz + i * 2) (sz - padding sz + i * 2)
                          (corner_radius sz + i * 2) (NEON_CYAN @ [80 - (i * 20)])
                          (border_width sz + (i * py_int (4 * scale sz))))
                (py_range 3 0 (- 1)) H;
          H = draw_rounded_rect draw (padding sz) (padding sz) (sz - padding sz) (sz - padding sz)
                (corner_radius sz) NEON_CYAN (border_width sz) H
      in H)"

text \<open>Lines 88-104: the body of the loop over the four cells.\<close>

definition draw_cell :: "int \<Rightarrow> nat \<Rightarrow> nat \<times> int \<times> int \<Rightarrow> heap \<Rightarrow> heap" where
  "draw_cell sz draw = (\<lambda>(i, tx, ty) H.
     let color = tile_colors ! i;
         cell_corner = py_int (12 * scale sz);
         H = fold (\<lambda>g. draw_rounded_rect draw (tx - g) (ty - g)
                         (tx + cell_size sz + g) (ty + cell_size sz + g)
                         (cell_corner + g) (color @ [60 - (g * 20)]) (max 1 (py_int (2 * scale sz))))
               (py_range 2 0 (- 1)) H;
         H = draw_filled_rounded_rect draw tx ty (tx + cell_size sz) (ty + cell_size sz)
               cell_corner (color @ [40]) H;
         H = draw_rounded_rect draw tx ty (tx + cell_size sz) (ty + cell_size sz)
               cell_corner (color @ [220]) (max 1 (py_int (3 * scale sz))) H
     in H)"

text \<open>Lines 72-104: the 2x2 tile grid.\<close>

definition tile_grid :: "int \<Rightarrow> nat \<Rightarrow> heap \<Rightarrow> heap" where
  "tile_grid sz draw H = fold (draw_cell sz draw) (enumerate 0 (tile_positions sz)) H"

text \<open>Lines 106-109: the scan lines.\<close>

definition scan_lines :: "int \<Rightarrow> nat \<Rightarrow> heap \<Rightarrow> heap" where
  "scan_lines sz draw H =
     (if sz \<ge> 128 then
        fold (\<lambda>y. draw_line draw (0, y) (sz, y) [0, 0, 0, 15] 1) (py_range 0 sz 4) H
      else H)"

text \<open>Lines 111-127: the corner accents.\<close>

definition corner_accents :: "int \<Rightarrow> nat \<Rightarrow> heap \<Rightarrow> heap" where
  "corner_accents sz draw H =
     (let H = draw_line draw (padding sz, padding sz + corner_radius sz)
                (padding sz, padding sz + corner_radius sz + accent_len sz)
                NEON_MAGENTA (accent_width sz) H;
          H = draw_line draw (padding sz + corner_radius sz, padding sz)
                (padding sz + corner_radius sz + accent_len sz, padding sz)
                NEON_MAGENTA (accent_width sz) H;
          H = draw_line draw (sz - padding sz, sz - padding sz - corner_radius sz)
                (sz - padding sz, sz - padding sz - corner_radius sz - accent_len sz)
                NEON_MAGENTA (accent_width sz) H;
          H = draw_line draw (sz - padding sz - corner_radius sz, sz - padding sz)
                (sz - padding sz - corner_radius sz - accent_len sz, sz - padding sz)
                NEON_MAGENTA (accent_width sz) H
      in H)"

text \<open>
  The routine allocates its own image, draws the passes into it and returns it. It
  takes the heap it runs in and returns the new image with the heap after the run.
\<close>

definition create_cyberpunk_icon :: "int \<Rightarrow> heap \<Rightarrow> nat \<times> heap" where
  "create_cyberpunk_icon sz H =
     (let (img, H) = Image_new ''RGBA'' (sz, sz) DARK_BG H;
          draw = ImageDraw_Draw img;
          H = background_grid sz draw H;
          H = outer_border sz draw H;
          H = tile_grid sz draw H;
          H = scan_lines sz draw H;
          H = corner_accents sz draw H
      in (img, H))"

text \<open>The canvas a run of the routine returns, read from the heap after the run.\<close>

definition returned_canvas :: "nat \<times> heap \<Rightarrow> canvas" where
  "returned_canvas r = snd r ! fst r"

section \<open>The manifest builder\<close>

text \<open>
  \<^verbatim>\<open>generate_contents_json\<close> (lines 190-208) returns nested dictionaries with fixed keys;
  they are records here, the list of images in the order it is appended to.
\<close>

record image_entry =
  e_filename :: string
  e_idiom :: string
  e_scale :: string
  e_size :: string

record info_entry =
  author :: string
  version :: int

record contents =
  images :: "image_entry list"
  info :: info_entry

definition generate_contents_json :: contents where
  "generate_contents_json =
     (let images = fold (\<lambda>(sz, scale_tag, filename) images.
                      let base_size = (if scale_tag = ''1x'' then sz else sz div 2)
                      in images @ [\<lparr>e_filename = filename, e_idiom = ''mac'', e_scale = scale_tag,
                                     e_size = py_str base_size @ ''x'' @ py_str base_size\<rparr>])
                    SIZES []
      in \<lparr>images = images, info = \<lparr>author = ''xcode'', version = 1\<rparr>\<rparr>)"

section \<open>Reading a log\<close>

text \<open>The coordinates and the colours a drawing call was given.\<close>

fun call_coords :: "draw_call \<Rightarrow> int list" where
  "call_coords (Line (x0, y0) (x1, y1) fill width) = [x0, y0, x1, y1]"
| "call_coords (Rectangle (x0, y0, x1, y1) fill outline width) = [x0, y0, x1, y1]"
| "call_coords (Arc (x0, y0, x1, y1) start stop fill width) = [x0, y0, x1, y1]"
| "call_coords (Ellipse (x0, y0, x1, y1) fill outline width) = [x0, y0, x1, y1]"

fun call_colours :: "draw_call \<Rightarrow> colour list" where
  "call_colours (Line p q fill width) = [fill]"
| "call_colours (Rectangle xy fill outline width) =
     (case fill of None \<Rightarrow> [] | Some c \<Rightarrow> [c]) @ (case outline of None \<Rightarrow> [] | Some c \<Rightarrow> [c])"
| "call_colours (Arc xy start stop fill width) = [fill]"
| "call_colours (Ellipse xy fill outline width) =
     (case fill of None \<Rightarrow> [] | Some c \<Rightarrow> [c]) @ (case outline of None \<Rightarrow> [] | Some c \<Rightarrow> [c])"

text \<open>
  The radius both primitives work with after lines 141-142 and 172-173, and the calls
  they then make on ordered corners with that radius.
\<close>

definition effective_radius :: "int \<Rightarrow> int \<Rightarrow> int \<Rightarrow> int \<Rightarrow> int \<Rightarrow> int" where
  "effective_radius x1 y1 x2 y2 radius = min radius (min ((x2 - x1) div 2) ((y2 - y1) div 2))"

definition outline_calls ::
  "int \<Rightarrow> int \<Rightarrow> int \<Rightarrow> int \<Rightarrow> int \<Rightarrow> colour \<Rightarrow> int \<Rightarrow> draw_call list" where
  "outline_calls x1 y1 x2 y2 r color width =
     (if r \<le> 0 then [Rectangle (x1, y1, x2, y2) None (Some color) width]
      else [Line (x1 + r, y1) (x2 - r, y1) color width,
            Line (x1 + r, y2) (x2 - r, y2) color width,
            Line (x1, y1 + r) (x1, y2 - r) color width,
            Line (x2, y1 + r) (x2, y2 - r) color width,
            Arc (x1, y1, x1 + r * 2, y1 + r * 2) 180 270 color width,
            Arc (x2 - r * 2, y1, x2, y1 + r * 2) 270 360 color width,
            Arc (x1, y2 - r * 2, x1 + r * 2, y2) 90 180 color width,
            Arc (x2 - r * 2, y2 - r * 2, x2, y2) 0 90 color width])"

definition fill_calls :: "int \<Rightarrow> int \<Rightarrow> int \<Rightarrow> int \<Rightarrow> int \<Rightarrow> colour \<Rightarrow> draw_call list" where
  "fill_calls x1 y1 x2 y2 r color =
     (if r \<le> 0 then [Rectangle (x1, y1, x2, y2) (Some color) None 1]
      else [Rectangle (x1 + r, y1, x2 - r, y2) (Some color) None 1,
            Rectangle (x1, y1 + r, x2, y2 - r) (Some color) None 1,
            Ellipse (x1, y1, x1 + r * 2, y1 + r * 2) (Some color) None 1,
            Ellipse (x2 - r * 2, y1, x2, y1 + r * 2) (Some color) None 1,
            Ellipse (x1, y2 - r * 2, x1 + r * 2, y2) (Some color) None 1,
            Ellipse (x2 - r * 2, y2 - r * 2, x2, y2) (Some color) None 1])"

text \<open>The calls the primitives make on any corners and any requested radius.\<close>

definition rounded_rect_log ::
  "int \<Rightarrow> int \<Rightarrow> int \<Rightarrow> int \<Rightarrow> int \<Rightarrow> colour \<Rightarrow> int \<Rightarrow> draw_call list" where
  "rounded_rect_log x1 y1 x2 y2 radius color width =
     outline_calls (min x1 x2) (min y1 y2) (max x1 x2) (max y1 y2)
       (effective_radius (min x1 x2) (min y1 y2) (max x1 x2) (max y1 y2) radius) color width"

definition filled_rounded_rect_log ::
  "int \<Rightarrow> int \<Rightarrow> int \<Rightarrow> int \<Rightarrow> int \<Rightarrow> colour \<Rightarrow> draw_call list" where
  "filled_rounded_rect_log x1 y1 x2 y2 radius color =
     fill_calls (min x1 x2) (min y1 y2) (max x1 x2) (max y1 y2)
       (effective_radius (min x1 x2) (min y1 y2) (max x1 x2) (max y1 y2) radius) color"

text \<open>
  A heap transformer that only appends a fixed list of calls, each satisfying \<open>P\<close>, to
  the log of the canvas it is given.
\<close>

definition logs :: "(draw_call \<Rightarrow> bool) \<Rightarrow> (nat \<Rightarrow> heap \<Rightarrow> heap) \<Rightarrow> bool" where
  "logs P f = (\<exists>cs. list_all P cs \<and> (\<forall>draw H. f draw H = fold (record_call draw) cs H))"

definition avoids :: "colour \<Rightarrow> draw_call \<Rightarrow> bool" where
  "avoids X c = (X \<notin> set (call_colours c))"

text \<open>The calls in the log of a canvas that were given the colour \<open>X\<close>.\<close>

definition calls_in_colour :: "colour \<Rightarrow> canvas \<Rightarrow> draw_call list" where
  "calls_in_colour X cv = filter (\<lambda>c. X \<in> set (call_colours c)) (im_calls cv)"

text \<open>The calls of the background grid pass and of the scan line pass when they draw.\<close>

definition grid_line_calls :: "int \<Rightarrow> draw_call list" where
  "grid_line_calls sz =
     map (\<lambda>x. Line (x, 0) (x, sz) (GRID_COLOR @ [40]) (max 1 (py_int (scale sz))))
       (py_range 0 sz (grid_spacing sz))
     @ map (\<lambda>y. Line (0, y) (sz, y) (GRID_COLOR @ [40]) (max 1 (py_int (scale sz))))
       (py_range 0 sz (grid_spacing sz))"

definition scan_line_calls :: "int \<Rightarrow> draw_call list" where
  "scan_line_calls sz = map (\<lambda>y. Line (0, y) (sz, y) [0, 0, 0, 15] 1) (py_range 0 sz 4)"

definition coords_within :: "int \<Rightarrow> int \<Rightarrow> draw_call \<Rightarrow> bool" where
  "coords_within lo hi c = list_all (\<lambda>v. lo \<le> v \<and> v \<le> hi) (call_coords c)"

section \<open>Basic facts about logs\<close>

lemma fold_record_call:
  "fold (record_call draw) cs H = H[draw := (H ! draw)\<lparr>im_calls := im_calls (H ! draw) @ cs\<rparr>]"
proof (induction cs arbitrary: H)
  case Nil
  show ?case by simp
next
  case (Cons c cs)
  have "fold (record_call draw) (c # cs) H = fold (record_call draw) cs (record_call draw c H)"
    by simp
  also have "\<dots> = (record_call draw c H)[draw := (record_call draw c H ! draw)
      \<lparr>im_calls := im_calls (record_call draw c H ! draw) @ cs\<rparr>]"
    by (rule Cons.IH)
  also have "\<dots> = H[draw := (H ! draw)\<lparr>im_calls := im_calls (H ! draw) @ c # cs\<rparr>]"
    by (cases "draw < length H") (simp_all add: record_call_def not_less list_update_beyond)
  finally show ?case .
qed

lemmas draw_defs = draw_line_def draw_rectangle_def draw_arc_def draw_ellipse_def


lemma draw_rounded_rect_ordered:
  assumes "x1 \<le> x2" "y1 \<le> y2"
  shows "draw_rounded_rect draw x1 y1 x2 y2 radius color width H
     = fold (record_call draw)
         (outline_calls x1 y1 x2 y2 (effective_radius x1 y1 x2 y2 radius) color width) H"
proof -
  have nx: "(x2 < x1) = False" and ny: "(y2 < y1) = False"
    using assms by simp_all
  show ?thesis
  proof (cases "effective_radius x1 y1 x2 y2 radius \<le> 0")
    case True
    then have c: "(min radius (min ((x2 - x1) div 2) ((y2 - y1) div 2)) \<le> 0) = True"
      by (simp only: effective_radius_def)
    show ?thesis
      by (simp only: draw_rounded_rect_def outline_calls_def effective_radius_def nx ny c
          if_False if_True Let_def prod.case draw_defs fold_simps)
  next
    case False
    then have c: "(min radius (min ((x2 - x1) div 2) ((y2 - y1) div 2)) \<le> 0) = False"
      by (simp only: effective_radius_def)
    show ?thesis
      by (simp only: draw_rounded_rect_def outline_calls_def effective_radius_def nx ny c
          if_False if_True Let_def prod.case draw_defs fold_simps)
  qed
qed

lemma draw_filled_rounded_rect_ordered:
  assumes "x1 \<le> x2" "y1 \<le> y2"
  shows "draw_filled_rounded_rect draw x1 y1 x2 y2 radius color H
     = fold (record_call draw)
         (fill_calls x1 y1 x2 y2 (effective_radius x1 y1 x2 y2 radius) color) H"
proof -
  have nx: "(x2 < x1) = False" and ny: "(y2 < y1) = False"
    using assms by simp_all
  show ?thesis
  proof (cases "effective_radius x1 y1 x2 y2 radius \<le> 0")
    case True
    then have c: "(min radius (min ((x2 - x1) div 2) ((y2 - y1) div 2)) \<le> 0) = True"
      by (simp only: effective_radius_def)
    show ?thesis
      by (simp only: draw_filled_rounded_rect_def fill_calls_def effective_radius_def nx ny c
          if_False if_True Let_def prod.case draw_defs fold_simps)
  next
    case False
    then have c: "(min radius (min ((x2 - x1) div 2) ((y2 - y1) div 2)) \<le> 0) = False"
      by (simp only: effective_radius_def)
    show ?thesis
      by (simp only: draw_filled_rounded_rect_def fill_calls_def effective_radius_def nx ny c
          if_False if_True Let_def prod.case draw_defs fold_simps)
  qed
qed

section \<open>Normal form of the primitives\<close>

lemma draw_rounded_rect_swap_x:
  assumes "x2 < x1"
  shows "draw_rounded_rect draw x1 y1 x2 y2 radius color width H
     = draw_rounded_rect draw x2 y1 x1 y2 radius color width H"
proof -
  have c: "(x2 < x1) = True" "(x1 < x2) = False"
    using assms by simp_all
  show ?thesis
    by (simp only: draw_rounded_rect_def c if_True if_False)
qed

lemma draw_rounded_rect_swap_y:
  assumes "y2 < y1"
  shows "draw_rounded_rect draw x1 y1 x2 y2 radius color width H
     = draw_rounded_rect draw x1 y2 x2 y1 radius color width H"
proof -
  have c: "(y2 < y1) = True" "(y1 < y2) = False"
    using assms by simp_all
  show ?thesis
    by (simp only: draw_rounded_rect_def c if_True if_False)
qed

lemma draw_rounded_rect_min_max:
  "draw_rounded_rect draw x1 y1 x2 y2 radius color width H
     = draw_rounded_rect draw (min x1 x2) (min y1 y2) (max x1 x2) (max y1 y2) radius color width H"
proof -
  have x: "draw_rounded_rect draw x1 b x2 d radius color width H
     = draw_rounded_rect draw (min x1 x2) b (max x1 x2) d radius color width H" for b d
    using draw_rounded_rect_swap_x [of x2 x1 draw b d radius color width H]
    by (cases "x2 < x1") (simp_all add: min_def max_def)
  have y: "draw_rounded_rect draw a y1 c y2 radius color width H
     = draw_rounded_rect draw a (min y1 y2) c (max y1 y2) radius color width H" for a c
    using draw_rounded_rect_swap_y [of y2 y1 draw a c radius color width H]
    by (cases "y2 < y1") (simp_all add: min_def max_def)
  show ?thesis
    by (rule trans [OF x y])
qed

lemma draw_filled_rounded_rect_swap_x:
  assumes "x2 < x1"
  shows "draw_filled_rounded_rect draw x1 y1 x2 y2 radius color H
     = draw_filled_rounded_rect draw x2 y1 x1 y2 radius color H"
proof -
  have c: "(x2 < x1) = True" "(x1 < x2) = False"
    using assms by simp_all
  show ?thesis
    by (simp only: draw_filled_rounded_rect_def c if_True if_False)
qed

lemma draw_filled_rounded_rect_swap_y:
  assumes "y2 < y1"
  shows "draw_filled_rounded_rect draw x1 y1 x2 y2 radius color H
     = draw_filled_rounded_rect draw x1 y2 x2 y1 radius color H"
proof -
  have c: "(y2 < y1) = True" "(y1 < y2) = False"
    using assms by simp_all
  show ?thesis
    by (simp only: draw_filled_rounded_rect_def c if_True if_False)
qed

lemma draw_filled_rounded_rect_min_max:
  "draw_filled_rounded_rect draw x1 y1 x2 y2 radius color H
     = draw_filled_rounded_rect draw (min x1 x2) (min y1 y2) (max x1 x2) (max y1 y2) radius color H"
proof -
  have x: "draw_filled_rounded_rect draw x1 b x2 d radius color H
     = draw_filled_rounded_rect draw (min x1 x2) b (max x1 x2) d radius color H" for b d
    using draw_filled_rounded_rect_swap_x [of x2 x1 draw b d radius color H]
    by (cases "x2 < x1") (simp_all add: min_def max_def)
  have y: "draw_filled_rounded_rect draw a y1 c y2 radius color H
     = draw_filled_rounded_rect draw a (min y1 y2) c (max y1 y2) radius color H" for a c
    using draw_filled_rounded_rect_swap_y [of y2 y1 draw a c radius color H]
    by (cases "y2 < y1") (simp_all add: min_def max_def)
  show ?thesis
    by (rule trans [OF x y])
qed

lemma draw_rounded_rect_calls:
  "draw_rounded_rect draw x1 y1 x2 y2 radius color width H
     = fold (record_call draw) (rounded_rect_log x1 y1 x2 y2 radius color width) H"
  unfolding rounded_rect_log_def
  by (subst draw_rounded_rect_min_max, rule draw_rounded_rect_ordered) simp_all

lemma draw_filled_rounded_rect_calls:
  "draw_filled_rounded_rect draw x1 y1 x2 y2 radius color H
     = fold (record_call draw) (filled_rounded_rect_log x1 y1 x2 y2 radius color) H"
  unfolding filled_rounded_rect_log_def
  by (subst draw_filled_rounded_rect_min_max, rule draw_filled_rounded_rect_ordered) simp_all

lemma drawn_by_fold:
  assumes "draw < length H" and "\<And>H. f H = fold (record_call draw) cs H"
  shows "drawn_by f draw H = cs"
  using assms by (simp add: drawn_by_def fold_record_call)

section \<open>Corner order\<close>

text \<open>
  C6: the outline primitive and the fill primitive give the same canvas effect when the
  two corner points are exchanged, when only the x coordinates are exchanged, and when
  only the y coordinates are exchanged, for every radius, colour and stroke width.
\<close>

theorem corner_order_irrelevant:
  "draw_rounded_rect draw x2 y2 x1 y1 radius color width H
     = draw_rounded_rect draw x1 y1 x2 y2 radius color width H
   \<and> draw_rounded_rect draw x2 y1 x1 y2 radius color width H
     = draw_rounded_rect draw x1 y1 x2 y2 radius color width H
   \<and> draw_rounded_rect draw x1 y2 x2 y1 radius color width H
     = draw_rounded_rect draw x1 y1 x2 y2 radius color width H
   \<and> draw_filled_rounded_rect draw x2 y2 x1 y1 radius color H
     = draw_filled_rounded_rect draw x1 y1 x2 y2 radius color H
   \<and> draw_filled_rounded_rect draw x2 y1 x1 y2 radius color H
     = draw_filled_rounded_rect draw x1 y1 x2 y2 radius color H
   \<and> draw_filled_rounded_rect draw x1 y2 x2 y1 radius color H
     = draw_filled_rounded_rect draw x1 y1 x2 y2 radius color H"
proof -
  have o: "draw_rounded_rect draw a b c d radius color width H
      = draw_rounded_rect draw x1 y1 x2 y2 radius color width H"
    if "min a c = min x1 x2" "max a c = max x1 x2" "min b d = min y1 y2" "max b d = max y1 y2"
    for a b c d
    using that draw_rounded_rect_min_max [of draw a b c d radius color width H]
      draw_rounded_rect_min_max [of draw x1 y1 x2 y2 radius color width H]
    by simp
  have f: "draw_filled_rounded_rect draw a b c d radius color H
      = draw_filled_rounded_rect draw x1 y1 x2 y2 radius color H"
    if "min a c = min x1 x2" "max a c = max x1 x2" "min b d = min y1 y2" "max b d = max y1 y2"
    for a b c d
    using that draw_filled_rounded_rect_min_max [of draw a b c d radius color H]
      draw_filled_rounded_rect_min_max [of draw x1 y1 x2 y2 radius color H]
    by simp
  show ?thesis
    by (intro conjI o f) (simp_all add: min.commute max.commute)
qed

section \<open>Clamping the radius\<close>

text \<open>
  C2: on ordered corners, a requested radius of at least half the shorter side (halved
  with the floor division of the source) gives the same canvas effect as a radius of
  exactly half the shorter side, for the outline and for the fill primitive. More
  generally any requested radius \<open>r\<close> acts as \<open>min r\<close> of that half, so the radius in
  effect never exceeds it and clamping twice changes nothing.
\<close>

theorem radius_clamped_to_half_shorter_side:
  assumes "x1 \<le> x2" and "y1 \<le> y2"
    and "min ((x2 - x1) div 2) ((y2 - y1) div 2) \<le> radius"
  shows "draw_rounded_rect draw x1 y1 x2 y2 radius color width H
           = draw_rounded_rect draw x1 y1 x2 y2 (min ((x2 - x1) div 2) ((y2 - y1) div 2)) color width H
       \<and> draw_filled_rounded_rect draw x1 y1 x2 y2 radius color H
           = draw_filled_rounded_rect draw x1 y1 x2 y2 (min ((x2 - x1) div 2) ((y2 - y1) div 2)) color H
       \<and> draw_rounded_rect draw x1 y1 x2 y2 r color width H
           = draw_rounded_rect draw x1 y1 x2 y2
               (min r (min ((x2 - x1) div 2) ((y2 - y1) div 2))) color width H
       \<and> draw_filled_rounded_rect draw x1 y1 x2 y2 r color H
           = draw_filled_rounded_rect draw x1 y1 x2 y2
               (min r (min ((x2 - x1) div 2) ((y2 - y1) div 2))) color H"
proof -
  let ?m = "min ((x2 - x1) div 2) ((y2 - y1) div 2)"
  have e: "effective_radius x1 y1 x2 y2 radius = effective_radius x1 y1 x2 y2 ?m"
    using assms(3) by (simp add: effective_radius_def)
  have i: "effective_radius x1 y1 x2 y2 r = effective_radius x1 y1 x2 y2 (min r ?m)"
    by (simp add: effective_radius_def)
  show ?thesis
    by (simp only: draw_rounded_rect_ordered [OF assms(1,2)]
        draw_filled_rounded_rect_ordered [OF assms(1,2)] e i [symmetric] simp_thms)
qed

text \<open>The rectangle \<open>(0, 0)-(10, 6)\<close> with requested radius 7: half the shorter side is 3.\<close>

theorem radius_clamped_to_half_shorter_side_witness:
  "(0::int) \<le> 10 \<and> (0::int) \<le> 6 \<and> min ((10 - 0) div 2) ((6 - 0) div 2) \<le> (7::int)
   \<and> draw_rounded_rect 0 0 0 10 6 7 [0, 255, 255] 2
        [\<lparr>im_mode = ''RGBA'', im_size = (16, 16), im_color = [10, 10, 15], im_calls = []\<rparr>]
      = draw_rounded_rect 0 0 0 10 6 3 [0, 255, 255] 2
        [\<lparr>im_mode = ''RGBA'', im_size = (16, 16), im_color = [10, 10, 15], im_calls = []\<rparr>]
   \<and> draw_filled_rounded_rect 0 0 0 10 6 7 [0, 255, 255, 40]
        [\<lparr>im_mode = ''RGBA'', im_size = (16, 16), im_color = [10, 10, 15], im_calls = []\<rparr>]
      = draw_filled_rounded_rect 0 0 0 10 6 3 [0, 255, 255, 40]
        [\<lparr>im_mode = ''RGBA'', im_size = (16, 16), im_color = [10, 10, 15], im_calls = []\<rparr>]"
proof -
  have h: "(0::int) \<le> 10" "(0::int) \<le> 6" "min (((10::int) - 0) div 2) ((6 - 0) div 2) \<le> 7"
    by simp_all
  have m: "min (((10::int) - 0) div 2) ((6 - 0) div 2) = 3"
    by simp
  note t = radius_clamped_to_half_shorter_side [OF h, unfolded m]
  from t [of 0 "[0, 255, 255]" 2 _ 7] t [of 0 "[0, 255, 255, 40]" 2 _ 7] h
  show ?thesis
    by (simp only: simp_thms)
qed

section \<open>The degenerate radius\<close>

text \<open>
  C3: when the clamped radius is at most 0, the outline primitive makes exactly one
  call, a rectangle outline of the given colour and stroke width on the ordered
  corners, and the fill primitive makes exactly one call, a filled rectangle of the
  given colour; no line, arc or ellipse call is made.
\<close>

theorem degenerate_radius_plain_rectangle:
  assumes "draw < length H"
    and "min radius (min ((max x1 x2 - min x1 x2) div 2) ((max y1 y2 - min y1 y2) div 2)) \<le> 0"
  shows "draw_rounded_rect draw x1 y1 x2 y2 radius color width H
           = draw_rectangle draw (min x1 x2, min y1 y2, max x1 x2, max y1 y2) None (Some color) width H
       \<and> drawn_by (draw_rounded_rect draw x1 y1 x2 y2 radius color width) draw H
           = [Rectangle (min x1 x2, min y1 y2, max x1 x2, max y1 y2) None (Some color) width]
       \<and> draw_filled_rounded_rect draw x1 y1 x2 y2 radius color H
           = draw_rectangle draw (min x1 x2, min y1 y2, max x1 x2, max y1 y2) (Some color) None 1 H
       \<and> drawn_by (draw_filled_rounded_rect draw x1 y1 x2 y2 radius color) draw H
           = [Rectangle (min x1 x2, min y1 y2, max x1 x2, max y1 y2) (Some color) None 1]"
proof -
  let ?r = "effective_radius (min x1 x2) (min y1 y2) (max x1 x2) (max y1 y2) radius"
  have r: "?r \<le> 0"
    using assms(2) by (simp only: effective_radius_def)
  have o: "rounded_rect_log x1 y1 x2 y2 radius color width
      = [Rectangle (min x1 x2, min y1 y2, max x1 x2, max y1 y2) None (Some color) width]"
    using r by (simp only: rounded_rect_log_def outline_calls_def if_True)
  have f: "filled_rounded_rect_log x1 y1 x2 y2 radius color
      = [Rectangle (min x1 x2, min y1 y2, max x1 x2, max y1 y2) (Some color) None 1]"
    using r by (simp only: filled_rounded_rect_log_def fill_calls_def if_True)
  have 1: "draw_rounded_rect draw x1 y1 x2 y2 radius color width H
      = draw_rectangle draw (min x1 x2, min y1 y2, max x1 x2, max y1 y2) None (Some color) width H"
    for H
    by (simp only: draw_rounded_rect_calls o fold_simps draw_rectangle_def)
  have 2: "draw_filled_rounded_rect draw x1 y1 x2 y2 radius color H
      = draw_rectangle draw (min x1 x2, min y1 y2, max x1 x2, max y1 y2) (Some color) None 1 H"
    for H
    by (simp only: draw_filled_rounded_rect_calls f fold_simps draw_rectangle_def)
  have 3: "drawn_by (draw_rounded_rect draw x1 y1 x2 y2 radius color width) draw H
      = [Rectangle (min x1 x2, min y1 y2, max x1 x2, max y1 y2) None (Some color) width]"
    by (rule drawn_by_fold [OF assms(1)]) (simp only: draw_rounded_rect_calls o)
  have 4: "drawn_by (draw_filled_rounded_rect draw x1 y1 x2 y2 radius color) draw H
      = [Rectangle (min x1 x2, min y1 y2, max x1 x2, max y1 y2) (Some color) None 1]"
    by (rule drawn_by_fold [OF assms(1)]) (simp only: draw_filled_rounded_rect_calls f)
  show ?thesis
    using 1 2 3 4 by (intro conjI)
qed

text \<open>A one-pixel-high rectangle: half the shorter side is 0, so radius 5 clamps to 0.\<close>

theorem degenerate_radius_plain_rectangle_witness:
  "(0::nat) < length [\<lparr>im_mode = ''RGBA'', im_size = (16, 16), im_color = [10, 10, 15], im_calls = []\<rparr>]
   \<and> min (5::int) (min ((max 10 0 - min 10 0) div 2) ((max 5 4 - min 5 4) div 2)) \<le> 0
   \<and> drawn_by (draw_rounded_rect 0 10 5 0 4 5 [0, 255, 255] 2) 0
        [\<lparr>im_mode = ''RGBA'', im_size = (16, 16), im_color = [10, 10, 15], im_calls = []\<rparr>]
      = [Rectangle (0, 4, 10, 5) None (Some [0, 255, 255]) 2]
   \<and> drawn_by (draw_filled_rounded_rect 0 10 5 0 4 5 [0, 255, 255, 40]) 0
        [\<lparr>im_mode = ''RGBA'', im_size = (16, 16), im_color = [10, 10, 15], im_calls = []\<rparr>]
      = [Rectangle (0, 4, 10, 5) (Some [0, 255, 255, 40]) None 1]"
proof -
  let ?H = "[\<lparr>im_mode = ''RGBA'', im_size = (16, 16), im_color = [10, 10, 15], im_calls = []\<rparr>]"
  have h: "(0::nat) < length ?H"
    "min (5::int) (min ((max 10 0 - min 10 0) div 2) ((max 5 4 - min 5 4) div 2)) \<le> 0"
    by simp_all
  have m: "min (10::int) 0 = 0" "max (10::int) 0 = 10" "min (5::int) 4 = 4" "max (5::int) 4 = 5"
    by simp_all
  from degenerate_radius_plain_rectangle [of 0 ?H 5 10 0 5 4 "[0, 255, 255]" 2]
    degenerate_radius_plain_rectangle [of 0 ?H 5 10 0 5 4 "[0, 255, 255, 40]" 2] h
  show ?thesis
    by (simp add: m)
qed

section \<open>Transformers that only log calls\<close>

lemma logsI:
  assumes "list_all P cs" and "\<And>draw H. f draw H = fold (record_call draw) cs H"
  shows "logs P f"
  unfolding logs_def using assms by blast

lemma logs_skip: "logs P (\<lambda>draw H. H)"
  by (rule logsI [of P "[]"]) simp_all

lemma logs_record_call: "P c \<Longrightarrow> logs P (\<lambda>draw. record_call draw c)"
  by (rule logsI [of P "[c]"]) simp_all

lemma logs_seq:
  assumes "logs P f" and "logs P g"
  shows "logs P (\<lambda>draw H. g draw (f draw H))"
proof -
  from assms(1) obtain cf where cf: "list_all P cf" "\<And>draw H. f draw H = fold (record_call draw) cf H"
    unfolding logs_def by blast
  from assms(2) obtain cg where cg: "list_all P cg" "\<And>draw H. g draw H = fold (record_call draw) cg H"
    unfolding logs_def by blast
  show ?thesis
    by (rule logsI [of P "cf @ cg"]) (simp_all add: cf cg)
qed

lemma logs_fold:
  assumes "\<And>x. x \<in> set xs \<Longrightarrow> logs P (f x)"
  shows "logs P (\<lambda>draw H. fold (\<lambda>x. f x draw) xs H)"
  using assms
proof (induction xs)
  case Nil
  show ?case by (simp add: logs_skip)
next
  case (Cons x xs)
  have "logs P (f x)" and "logs P (\<lambda>draw H. fold (\<lambda>x. f x draw) xs H)"
    using Cons by simp_all
  from logs_seq [OF this] show ?case by simp
qed

lemma logs_mono:
  assumes "logs P f" and "\<And>c. P c \<Longrightarrow> Q c"
  shows "logs Q f"
proof -
  from assms(1) obtain cs where cs: "list_all P cs" "\<And>draw H. f draw H = fold (record_call draw) cs H"
    unfolding logs_def by blast
  from cs(1) assms(2) have "list_all Q cs"
    by (simp add: list_all_iff)
  then show ?thesis
    using cs(2) by (rule logsI)
qed

lemma logs_draw_line: "P (Line p q fill width) \<Longrightarrow> logs P (\<lambda>draw. draw_line draw p q fill width)"
  unfolding draw_line_def by (rule logs_record_call)

lemma logs_draw_rounded_rect:
  assumes "list_all P (rounded_rect_log x1 y1 x2 y2 radius color width)"
  shows "logs P (\<lambda>draw. draw_rounded_rect draw x1 y1 x2 y2 radius color width)"
  using assms by (rule logsI) (rule draw_rounded_rect_calls)

lemma logs_draw_filled_rounded_rect:
  assumes "list_all P (filled_rounded_rect_log x1 y1 x2 y2 radius color)"
  shows "logs P (\<lambda>draw. draw_filled_rounded_rect draw x1 y1 x2 y2 radius color)"
  using assms by (rule logsI) (rule draw_filled_rounded_rect_calls)

lemma rounded_rect_log_colour:
  "list_all (\<lambda>c. call_colours c = [color]) (rounded_rect_log x1 y1 x2 y2 radius color width)"
  by (simp add: rounded_rect_log_def outline_calls_def)

lemma filled_rounded_rect_log_colour:
  "list_all (\<lambda>c. call_colours c = [color]) (filled_rounded_rect_log x1 y1 x2 y2 radius color)"
  by (simp add: filled_rounded_rect_log_def fill_calls_def)

lemma outline_calls_within:
  assumes "lo \<le> a" "lo \<le> b" "c \<le> hi" "d \<le> hi" "a \<le> c" "b \<le> d"
    and "r \<le> (c - a) div 2" "r \<le> (d - b) div 2"
  shows "list_all (coords_within lo hi) (outline_calls a b c d r color width)"
  using assms by (auto simp: outline_calls_def coords_within_def)

lemma fill_calls_within:
  assumes "lo \<le> a" "lo \<le> b" "c \<le> hi" "d \<le> hi" "a \<le> c" "b \<le> d"
    and "r \<le> (c - a) div 2" "r \<le> (d - b) div 2"
  shows "list_all (coords_within lo hi) (fill_calls a b c d r color)"
  using assms by (auto simp: fill_calls_def coords_within_def)

lemma effective_radius_le:
  "effective_radius a b c d r \<le> (c - a) div 2" "effective_radius a b c d r \<le> (d - b) div 2"
  by (simp_all add: effective_radius_def min_le_iff_disj)

lemma rounded_rect_log_within:
  assumes "lo \<le> x1" "lo \<le> y1" "x2 \<le> hi" "y2 \<le> hi" "lo \<le> x2" "lo \<le> y2" "x1 \<le> hi" "y1 \<le> hi"
  shows "list_all (coords_within lo hi) (rounded_rect_log x1 y1 x2 y2 radius color width)"
  unfolding rounded_rect_log_def
  using assms by (intro outline_calls_within effective_radius_le) simp_all

lemma filled_rounded_rect_log_within:
  assumes "lo \<le> x1" "lo \<le> y1" "x2 \<le> hi" "y2 \<le> hi" "lo \<le> x2" "lo \<le> y2" "x1 \<le> hi" "y1 \<le> hi"
  shows "list_all (coords_within lo hi) (filled_rounded_rect_log x1 y1 x2 y2 radius color)"
  unfolding filled_rounded_rect_log_def
  using assms by (intro fill_calls_within effective_radius_le) simp_all

section \<open>The passes as logged calls\<close>

lemma py_int_scale:
  assumes "0 \<le> sz"
  shows "py_int (numeral k * scale sz) = (numeral k * sz) div 512"
proof -
  have "numeral k * scale sz = (of_int (numeral k * sz) :: rat) / of_int 512"
    by (simp add: scale_def)
  moreover have "0 \<le> (of_int (numeral k * sz) :: rat) / of_int 512"
    using assms by simp
  ultimately show ?thesis
    unfolding py_int_def by (simp only: if_True floor_divide_of_int_eq)
qed

lemma py_int_scale1:
  assumes "0 \<le> sz"
  shows "py_int (scale sz) = sz div 512"
proof -
  have "scale sz = (of_int sz :: rat) / of_int 512"
    by (simp add: scale_def)
  moreover have "0 \<le> (of_int sz :: rat) / of_int 512"
    using assms by simp
  ultimately show ?thesis
    unfolding py_int_def by (simp only: if_True floor_divide_of_int_eq)
qed

lemma py_range_3: "py_range 3 0 (- 1) = [3, 2, 1]"
  by (simp add: py_range.simps)

lemma py_range_2: "py_range 2 0 (- 1) = [2, 1]"
  by (simp add: py_range.simps)

lemma fold_draw_line:
  "fold (\<lambda>x. draw_line draw (p x) (q x) fill width) xs H
     = fold (record_call draw) (map (\<lambda>x. Line (p x) (q x) fill width) xs) H"
  by (induction xs arbitrary: H) (simp_all add: draw_line_def)

lemma background_grid_calls:
  "background_grid sz draw H = fold (record_call draw)
     (if grid_spacing sz > 2 then
        map (\<lambda>x. Line (x, 0) (x, sz) (GRID_COLOR @ [40]) (max 1 (py_int (scale sz))))
          (py_range 0 sz (grid_spacing sz))
        @ map (\<lambda>y. Line (0, y) (sz, y) (GRID_COLOR @ [40]) (max 1 (py_int (scale sz))))
          (py_range 0 sz (grid_spacing sz))
      else []) H"
  by (simp add: background_grid_def Let_def fold_draw_line)

lemma scan_lines_calls:
  "scan_lines sz draw H = fold (record_call draw)
     (if sz \<ge> 128 then map (\<lambda>y. Line (0, y) (sz, y) [0, 0, 0, 15] 1) (py_range 0 sz 4) else []) H"
  by (simp add: scan_lines_def fold_draw_line)

lemma logs_background_grid:
  assumes "\<And>c. call_colours c = [GRID_COLOR @ [40]] \<Longrightarrow> P c"
  shows "logs P (background_grid sz)"
proof (rule logsI [OF _ background_grid_calls])
  show "list_all P (if grid_spacing sz > 2 then
        map (\<lambda>x. Line (x, 0) (x, sz) (GRID_COLOR @ [40]) (max 1 (py_int (scale sz))))
          (py_range 0 sz (grid_spacing sz))
        @ map (\<lambda>y. Line (0, y) (sz, y) (GRID_COLOR @ [40]) (max 1 (py_int (scale sz))))
          (py_range 0 sz (grid_spacing sz))
      else [])"
    by (auto simp: list_all_iff intro: assms)
qed

lemma logs_scan_lines:
  assumes "\<And>c. call_colours c = [[0, 0, 0, 15]] \<Longrightarrow> P c"
  shows "logs P (scan_lines sz)"
proof (rule logsI [OF _ scan_lines_calls])
  show "list_all P (if sz \<ge> 128 then map (\<lambda>y. Line (0, y) (sz, y) [0, 0, 0, 15] 1) (py_range 0 sz 4) else [])"
    by (auto simp: list_all_iff intro: assms)
qed

lemma logs_by_colour:
  assumes "\<And>c. call_colours c = [color] \<Longrightarrow> P c"
  shows "list_all P (rounded_rect_log x1 y1 x2 y2 radius color width)"
    and "list_all P (filled_rounded_rect_log x1 y1 x2 y2 radius color)"
  using rounded_rect_log_colour [of color x1 y1 x2 y2 radius width]
    filled_rounded_rect_log_colour [of color x1 y1 x2 y2 radius] assms
  by (simp_all add: list_all_iff)

lemma logs_outer_border:
  assumes "\<And>c a. call_colours c = [NEON_CYAN @ [a]] \<Longrightarrow> P c"
    and "\<And>c. call_colours c = [NEON_CYAN] \<Longrightarrow> P c"
  shows "logs P (outer_border sz)"
proof -
  let ?glow = "\<lambda>i draw. draw_rounded_rect draw (padding sz - i * 2) (padding sz - i * 2)
                          (sz - padding sz + i * 2) (sz - padding sz + i * 2)
                          (corner_radius sz + i * 2) (NEON_CYAN @ [80 - (i * 20)])
                          (border_width sz + (i * py_int (4 * scale sz)))"
  let ?main = "\<lambda>draw. draw_rounded_rect draw (padding sz) (padding sz) (sz - padding sz) (sz - padding sz)
                (corner_radius sz) NEON_CYAN (border_width sz)"
  have g: "logs P (\<lambda>draw H. fold (\<lambda>i. ?glow i draw) (py_range 3 0 (- 1)) H)"
    by (rule logs_fold, rule logs_draw_rounded_rect, rule logs_by_colour) (rule assms(1))
  have m: "logs P ?main"
    by (rule logs_draw_rounded_rect, rule logs_by_colour) (rule assms(2))
  have "outer_border sz = (\<lambda>draw H. ?main draw (fold (\<lambda>i. ?glow i draw) (py_range 3 0 (- 1)) H))"
    by (intro ext) (simp only: outer_border_def Let_def)
  then show ?thesis
    using logs_seq [OF g m] by simp
qed

lemma logsE:
  assumes "logs P f"
  obtains cs where "list_all P cs" and "\<And>draw H. f draw H = fold (record_call draw) cs H"
  using assms unfolding logs_def by blast

lemma logs_draw_cell:
  assumes "\<And>g. g \<in> {2, 1} \<Longrightarrow>
      list_all P (rounded_rect_log (tx - g) (ty - g) (tx + cell_size sz + g) (ty + cell_size sz + g)
        (py_int (12 * scale sz) + g) (tile_colors ! i @ [60 - (g * 20)]) (max 1 (py_int (2 * scale sz))))"
    and "list_all P (filled_rounded_rect_log tx ty (tx + cell_size sz) (ty + cell_size sz)
        (py_int (12 * scale sz)) (tile_colors ! i @ [40]))"
    and "list_all P (rounded_rect_log tx ty (tx + cell_size sz) (ty + cell_size sz)
        (py_int (12 * scale sz)) (tile_colors ! i @ [220]) (max 1 (py_int (3 * scale sz))))"
  shows "logs P (\<lambda>draw. draw_cell sz draw (i, tx, ty))"
proof -
  let ?glow = "\<lambda>g draw. draw_rounded_rect draw (tx - g) (ty - g)
                         (tx + cell_size sz + g) (ty + cell_size sz + g)
                         (py_int (12 * scale sz) + g) (tile_colors ! i @ [60 - (g * 20)])
                         (max 1 (py_int (2 * scale sz)))"
  let ?fill = "\<lambda>draw. draw_filled_rounded_rect draw tx ty (tx + cell_size sz) (ty + cell_size sz)
               (py_int (12 * scale sz)) (tile_colors ! i @ [40])"
  let ?border = "\<lambda>draw. draw_rounded_rect draw tx ty (tx + cell_size sz) (ty + cell_size sz)
               (py_int (12 * scale sz)) (tile_colors ! i @ [220]) (max 1 (py_int (3 * scale sz)))"
  have g: "logs P (\<lambda>draw H. fold (\<lambda>g. ?glow g draw) (py_range 2 0 (- 1)) H)"
    by (rule logs_fold, rule logs_draw_rounded_rect, rule assms(1)) (simp add: py_range_2)
  have f: "logs P ?fill"
    by (rule logs_draw_filled_rounded_rect) (rule assms(2))
  have b: "logs P ?border"
    by (rule logs_draw_rounded_rect) (rule assms(3))
  have "(\<lambda>draw. draw_cell sz draw (i, tx, ty))
      = (\<lambda>draw H. ?border draw (?fill draw (fold (\<lambda>g. ?glow g draw) (py_range 2 0 (- 1)) H)))"
    by (intro ext) (simp only: draw_cell_def Let_def prod.case)
  then show ?thesis
    using logs_seq [OF logs_seq [OF g f] b] by simp
qed

lemma set_enumerate_tile_positions:
  assumes "x \<in> set (enumerate 0 (tile_positions sz))"
  obtains i tx ty where "x = (i, tx, ty)" "i < 4" "(tx, ty) = tile_positions sz ! i"
proof -
  from assms have "fst x < 4" "snd x = tile_positions sz ! fst x"
    by (auto simp: in_set_enumerate_eq tile_positions_def)
  then show thesis
    by (intro that [of "fst x" "fst (snd x)" "snd (snd x)"]) (simp_all add: prod_eq_iff)
qed

lemma logs_tile_grid:
  assumes "\<And>i tx ty. i < 4 \<Longrightarrow> (tx, ty) = tile_positions sz ! i \<Longrightarrow>
     logs P (\<lambda>draw. draw_cell sz draw (i, tx, ty))"
  shows "logs P (tile_grid sz)"
proof -
  have "logs P (\<lambda>draw H. fold (\<lambda>x. (\<lambda>x draw. draw_cell sz draw x) x draw)
      (enumerate 0 (tile_positions sz)) H)"
  proof (rule logs_fold)
    fix x assume "x \<in> set (enumerate 0 (tile_positions sz))"
    then obtain i tx ty where x: "x = (i, tx, ty)" "i < 4" "(tx, ty) = tile_positions sz ! i"
      by (rule set_enumerate_tile_positions)
    from assms [OF x(2,3)] show "logs P (\<lambda>draw. draw_cell sz draw x)"
      by (simp only: x(1))
  qed
  moreover have "tile_grid sz = (\<lambda>draw H. fold (draw_cell sz draw) (enumerate 0 (tile_positions sz)) H)"
    by (intro ext) (simp only: tile_grid_def)
  ultimately show ?thesis by simp
qed

lemma tile_colors_nth: "i < 4 \<Longrightarrow> tile_colors ! i \<in> set tile_colors"
  by (rule nth_mem) (simp add: tile_colors_def)

lemma logs_tile_grid_colour:
  assumes "\<And>c col a. col \<in> set tile_colors \<Longrightarrow> call_colours c = [col @ [a]] \<Longrightarrow> P c"
  shows "logs P (tile_grid sz)"
proof (rule logs_tile_grid)
  fix i :: nat and tx ty
  assume "i < 4"
  then have col: "tile_colors ! i \<in> set tile_colors"
    by (rule tile_colors_nth)
  show "logs P (\<lambda>draw. draw_cell sz draw (i, tx, ty))"
    by (rule logs_draw_cell; rule logs_by_colour; rule assms [OF col])
qed

lemma corner_accents_calls:
  "corner_accents sz draw H = fold (record_call draw)
     [Line (padding sz, padding sz + corner_radius sz)
        (padding sz, padding sz + corner_radius sz + accent_len sz) NEON_MAGENTA (accent_width sz),
      Line (padding sz + corner_radius sz, padding sz)
        (padding sz + corner_radius sz + accent_len sz, padding sz) NEON_MAGENTA (accent_width sz),
      Line (sz - padding sz, sz - padding sz - corner_radius sz)
        (sz - padding sz, sz - padding sz - corner_radius sz - accent_len sz)
        NEON_MAGENTA (accent_width sz),
      Line (sz - padding sz - corner_radius sz, sz - padding sz)
        (sz - padding sz - corner_radius sz - accent_len sz, sz - padding sz)
        NEON_MAGENTA (accent_width sz)] H"
  by (simp only: corner_accents_def Let_def draw_line_def fold_simps)

lemma logs_corner_accents:
  assumes "\<And>c. call_colours c = [NEON_MAGENTA] \<Longrightarrow> P c"
  shows "logs P (corner_accents sz)"
  by (rule logsI [OF _ corner_accents_calls]) (simp add: assms)

lemma fold_record_call_new:
  "fold (record_call (length H)) cs (H @ [cv]) = H @ [cv\<lparr>im_calls := im_calls cv @ cs\<rparr>]"
  by (simp add: fold_record_call)

lemma create_cyberpunk_icon_structure:
  assumes a: "\<And>draw H. background_grid sz draw H = fold (record_call draw) a H"
    and b: "\<And>draw H. outer_border sz draw H = fold (record_call draw) b H"
    and c: "\<And>draw H. tile_grid sz draw H = fold (record_call draw) c H"
    and d: "\<And>draw H. scan_lines sz draw H = fold (record_call draw) d H"
    and e: "\<And>draw H. corner_accents sz draw H = fold (record_call draw) e H"
  shows "create_cyberpunk_icon sz H
    = (length H, H @ [\<lparr>im_mode = ''RGBA'', im_size = (sz, sz), im_color = DARK_BG,
                        im_calls = a @ b @ c @ d @ e\<rparr>])"
proof -
  have "create_cyberpunk_icon sz H
    = (length H, fold (record_call (length H)) (a @ b @ c @ d @ e)
        (H @ [\<lparr>im_mode = ''RGBA'', im_size = (sz, sz), im_color = DARK_BG, im_calls = []\<rparr>]))"
    by (simp only: create_cyberpunk_icon_def Image_new_def ImageDraw_Draw_def Let_def prod.case
        a b c d e fold_append comp_apply)
  then show ?thesis
    by (simp only: fold_record_call_new) simp
qed



section \<open>Determinism of the composition routine\<close>



section \<open>Ranges and colours\<close>

lemma avoidsI: "call_colours c = [col] \<Longrightarrow> col \<noteq> X \<Longrightarrow> avoids X c"
  by (simp add: avoids_def)

lemma filter_avoids:
  assumes "list_all (avoids X) cs"
  shows "filter (\<lambda>c. X \<in> set (call_colours c)) cs = []"
  using assms by (simp add: list_all_iff avoids_def filter_empty_conv)

lemma returned_canvas_new: "returned_canvas (length H, H @ [cv]) = cv"
  by (simp add: returned_canvas_def)

lemma py_range_up_nonempty: "0 < k \<Longrightarrow> a < b \<Longrightarrow> py_range a b k \<noteq> []"
  by (subst py_range.simps) simp

lemma py_range_up_empty: "0 < k \<Longrightarrow> \<not> a < b \<Longrightarrow> py_range a b k = []"
  by (subst py_range.simps) simp

lemma grid_spacing_div: "0 \<le> sz \<Longrightarrow> grid_spacing sz = sz div 16"
  unfolding grid_spacing_def by (subst py_int_scale) simp_all

lemma range_step:
  fixes a k y :: int
  assumes "0 < k"
  shows "(a \<le> y \<and> k dvd (y - a)) = (y = a \<or> (a + k \<le> y \<and> k dvd (y - (a + k))))"
proof -
  have "y - a = (y - (a + k)) + k" by simp
  then have d: "k dvd (y - a) = (k dvd (y - (a + k)))"
    by (simp only: dvd_add_triv_right_iff)
  show ?thesis
  proof (intro iffI)
    assume l: "a \<le> y \<and> k dvd (y - a)"
    show "y = a \<or> (a + k \<le> y \<and> k dvd (y - (a + k)))"
    proof (cases "y = a")
      case True then show ?thesis by simp
    next
      case False
      with l have "0 < y - a" by simp
      with l have "k \<le> y - a" by (intro zdvd_imp_le) simp_all
      then have "a + k \<le> y" by simp
      with l d show ?thesis by simp
    qed
  next
    assume r: "y = a \<or> (a + k \<le> y \<and> k dvd (y - (a + k)))"
    then show "a \<le> y \<and> k dvd (y - a)"
    proof
      assume "y = a" then show ?thesis by simp
    next
      assume "a + k \<le> y \<and> k dvd (y - (a + k))"
      with assms d show ?thesis by simp
    qed
  qed
qed

lemma py_range_up_mem:
  assumes "0 < k"
  shows "(y \<in> set (py_range a b k)) = (a \<le> y \<and> y < b \<and> k dvd (y - a))"
  using assms
proof (induction a b k rule: py_range.induct)
  case (1 start stop step)
  show ?case
  proof (cases "start < stop")
    case False
    have "py_range start stop step = []"
      using 1(3) False by (rule py_range_up_empty)
    with False show ?thesis by simp
  next
    case True
    have ih: "(y \<in> set (py_range (start + step) stop step))
        = (start + step \<le> y \<and> y < stop \<and> step dvd (y - (start + step)))"
      using 1(1) [OF 1(3) True 1(3)] .
    have u: "py_range start stop step = start # py_range (start + step) stop step"
      using 1(3) True by (subst py_range.simps) simp
    have "(y \<in> set (py_range start stop step))
        = (y = start \<or> (start + step \<le> y \<and> y < stop \<and> step dvd (y - (start + step))))"
      by (simp only: u set_simps insert_iff ih)
    also have "\<dots> = (y < stop \<and> (y = start \<or> (start + step \<le> y \<and> step dvd (y - (start + step)))))"
      using True by blast
    also have "\<dots> = (y < stop \<and> (start \<le> y \<and> step dvd (y - start)))"
      by (simp only: range_step [OF 1(3), of start y])
    finally show ?thesis by blast
  qed
qed

lemma py_range_up_set:
  assumes "0 < k"
  shows "set (py_range a b k) = {y. a \<le> y \<and> y < b \<and> k dvd (y - a)}"
  using py_range_up_mem [OF assms] by blast

lemma logs_avoids_outer_border:
  assumes "\<And>a. NEON_CYAN @ [a] \<noteq> X" and "NEON_CYAN \<noteq> X"
  shows "logs (avoids X) (outer_border sz)"
  by (rule logs_outer_border) (erule avoidsI, rule assms)+

lemma logs_avoids_tile_grid:
  assumes "\<And>col a. col \<in> set tile_colors \<Longrightarrow> col @ [a] \<noteq> X"
  shows "logs (avoids X) (tile_grid sz)"
  by (rule logs_tile_grid_colour) (erule avoidsI, erule assms)

lemma logs_avoids_corner_accents:
  assumes "NEON_MAGENTA \<noteq> X"
  shows "logs (avoids X) (corner_accents sz)"
  by (rule logs_corner_accents) (erule avoidsI, rule assms)

lemma logs_avoids_scan_lines:
  assumes "[0, 0, 0, 15] \<noteq> X"
  shows "logs (avoids X) (scan_lines sz)"
  by (rule logs_scan_lines) (erule avoidsI, rule assms)

lemma logs_avoids_background_grid:
  assumes "GRID_COLOR @ [40] \<noteq> X"
  shows "logs (avoids X) (background_grid sz)"
  by (rule logs_background_grid) (erule avoidsI, rule assms)

lemmas colour_defs = NEON_CYAN_def NEON_MAGENTA_def NEON_BLUE_def GRID_COLOR_def tile_colors_def

lemma grid_colour_calls:
  "calls_in_colour (GRID_COLOR @ [40]) (returned_canvas (create_cyberpunk_icon sz H))
     = (if grid_spacing sz > 2 then grid_line_calls sz else [])"
proof -
  let ?G = "GRID_COLOR @ [40]"
  let ?a = "if grid_spacing sz > 2 then grid_line_calls sz else []"
  have a: "\<And>draw H. background_grid sz draw H = fold (record_call draw) ?a H"
    unfolding grid_line_calls_def by (rule background_grid_calls)
  obtain b where b: "list_all (avoids ?G) b"
      "\<And>draw H. outer_border sz draw H = fold (record_call draw) b H"
    by (rule logsE [OF logs_avoids_outer_border [of ?G sz]]) (simp_all add: colour_defs)
  obtain c where c: "list_all (avoids ?G) c"
      "\<And>draw H. tile_grid sz draw H = fold (record_call draw) c H"
    by (rule logsE [OF logs_avoids_tile_grid [of ?G sz]]) (auto simp: colour_defs)
  obtain d where d: "list_all (avoids ?G) d"
      "\<And>draw H. scan_lines sz draw H = fold (record_call draw) d H"
    by (rule logsE [OF logs_avoids_scan_lines [of ?G sz]]) (simp_all add: colour_defs)
  obtain e where e: "list_all (avoids ?G) e"
      "\<And>draw H. corner_accents sz draw H = fold (record_call draw) e H"
    by (rule logsE [OF logs_avoids_corner_accents [of ?G sz]]) (simp_all add: colour_defs)
  have own: "filter (\<lambda>c. ?G \<in> set (call_colours c)) ?a = ?a"
    by (simp add: grid_line_calls_def filter_map comp_def)
  have "calls_in_colour ?G (returned_canvas (create_cyberpunk_icon sz H))
      = filter (\<lambda>c. ?G \<in> set (call_colours c)) (?a @ b @ c @ d @ e)"
    by (simp only: create_cyberpunk_icon_structure [OF a b(2) c(2) d(2) e(2)] returned_canvas_new
        calls_in_colour_def canvas.simps)
  also have "\<dots> = ?a"
    by (simp only: filter_append own filter_avoids [OF b(1)] filter_avoids [OF c(1)]
        filter_avoids [OF d(1)] filter_avoids [OF e(1)] append_Nil2)
  finally show ?thesis .
qed

lemma scan_colour_calls:
  "calls_in_colour [0, 0, 0, 15] (returned_canvas (create_cyberpunk_icon sz H))
     = (if sz \<ge> 128 then scan_line_calls sz else [])"
proof -
  let ?S = "[0, 0, 0, 15] :: colour"
  let ?d = "if sz \<ge> 128 then scan_line_calls sz else []"
  have d: "\<And>draw H. scan_lines sz draw H = fold (record_call draw) ?d H"
    unfolding scan_line_calls_def by (rule scan_lines_calls)
  obtain a where a: "list_all (avoids ?S) a"
      "\<And>draw H. background_grid sz draw H = fold (record_call draw) a H"
    by (rule logsE [OF logs_avoids_background_grid [of ?S sz]]) (simp_all add: colour_defs)
  obtain b where b: "list_all (avoids ?S) b"
      "\<And>draw H. outer_border sz draw H = fold (record_call draw) b H"
    by (rule logsE [OF logs_avoids_outer_border [of ?S sz]]) (simp_all add: colour_defs)
  obtain c where c: "list_all (avoids ?S) c"
      "\<And>draw H. tile_grid sz draw H = fold (record_call draw) c H"
    by (rule logsE [OF logs_avoids_tile_grid [of ?S sz]]) (auto simp: colour_defs)
  obtain e where e: "list_all (avoids ?S) e"
      "\<And>draw H. corner_accents sz draw H = fold (record_call draw) e H"
    by (rule logsE [OF logs_avoids_corner_accents [of ?S sz]]) (simp_all add: colour_defs)
  have own: "filter (\<lambda>c. ?S \<in> set (call_colours c)) ?d = ?d"
    by (simp add: scan_line_calls_def filter_map comp_def)
  have "calls_in_colour ?S (returned_canvas (create_cyberpunk_icon sz H))
      = filter (\<lambda>c. ?S \<in> set (call_colours c)) (a @ b @ c @ ?d @ e)"
    by (simp only: create_cyberpunk_icon_structure [OF a(2) b(2) c(2) d e(2)] returned_canvas_new
        calls_in_colour_def canvas.simps)
  also have "\<dots> = ?d"
    by (simp only: filter_append own filter_avoids [OF a(1)] filter_avoids [OF b(1)]
        filter_avoids [OF c(1)] filter_avoids [OF e(1)] append_Nil2 append_Nil)
  finally show ?thesis .
qed

section \<open>The background grid\<close>

text \<open>
  C7: in the canvas the routine returns for a positive size \<open>sz\<close>, the calls in the grid
  colour \<open>(0, 80, 100, 40)\<close> are exactly the vertical and then the horizontal lines at
  every multiple of the spacing \<open>int(32 * sz / 512)\<close> below \<open>sz\<close> when that spacing
  exceeds 2, and there is no such call otherwise: the grid is drawn if and only if the
  spacing exceeds 2. Among the sizes of the table it is drawn exactly for those from 64
  up, so not for 16 and 32.
\<close>

theorem background_grid_iff_spacing:
  assumes "0 < sz"
  shows "calls_in_colour (GRID_COLOR @ [40]) (returned_canvas (create_cyberpunk_icon sz H))
           = (if grid_spacing sz > 2 then
                map (\<lambda>x. Line (x, 0) (x, sz) (GRID_COLOR @ [40]) (max 1 (py_int (scale sz))))
                  (py_range 0 sz (grid_spacing sz))
                @ map (\<lambda>y. Line (0, y) (sz, y) (GRID_COLOR @ [40]) (max 1 (py_int (scale sz))))
                  (py_range 0 sz (grid_spacing sz))
              else [])
       \<and> (calls_in_colour (GRID_COLOR @ [40]) (returned_canvas (create_cyberpunk_icon sz H)) \<noteq> [])
           = (grid_spacing sz > 2)
       \<and> grid_spacing sz = (32 * sz) div 512
       \<and> list_all (\<lambda>(s, tag, filename).
             (calls_in_colour (GRID_COLOR @ [40]) (returned_canvas (create_cyberpunk_icon s H)) \<noteq> [])
               = (64 \<le> s)) SIZES"
proof -
  have drawn: "(calls_in_colour (GRID_COLOR @ [40]) (returned_canvas (create_cyberpunk_icon s H)) \<noteq> [])
      = (grid_spacing s > 2)" if "0 < s" for s
  proof (cases "grid_spacing s > 2")
    case True
    then have "py_range 0 s (grid_spacing s) \<noteq> []"
      using that by (intro py_range_up_nonempty) simp_all
    with True show ?thesis
      by (simp add: grid_colour_calls grid_line_calls_def)
  next
    case False
    then show ?thesis
      by (simp add: grid_colour_calls)
  qed
  have sp: "grid_spacing s = (32 * s) div 512" if "0 < s" for s
    using that unfolding grid_spacing_def by (subst py_int_scale) simp_all
  have tab: "list_all (\<lambda>(s, tag, filename).
      (calls_in_colour (GRID_COLOR @ [40]) (returned_canvas (create_cyberpunk_icon s H)) \<noteq> [])
        = (64 \<le> s)) SIZES"
    unfolding SIZES_def by (simp add: drawn sp)
  show ?thesis
    using drawn [OF assms] sp [OF assms] tab
    by (simp only: grid_colour_calls grid_line_calls_def simp_thms)
qed

text \<open>Size 64: the spacing is 4, and the grid is drawn.\<close>

theorem background_grid_iff_spacing_witness:
  "(0::int) < 64
   \<and> grid_spacing 64 = 4
   \<and> calls_in_colour (GRID_COLOR @ [40]) (returned_canvas (create_cyberpunk_icon 64 [])) \<noteq> []"
proof -
  have h: "(0::int) < 64" by simp
  from background_grid_iff_spacing [OF h, of "[]"]
  have "(calls_in_colour (GRID_COLOR @ [40]) (returned_canvas (create_cyberpunk_icon 64 [])) \<noteq> [])
      = (grid_spacing 64 > 2)" and "grid_spacing 64 = (32 * 64) div 512"
    by blast+
  then show ?thesis by simp
qed

section \<open>The scan lines\<close>

text \<open>
  C8: in the canvas the routine returns for size \<open>sz\<close>, the calls in the colour
  \<open>(0, 0, 0, 15)\<close> are exactly the lines of width 1 from \<open>(0, y)\<close> to \<open>(sz, y)\<close>, one for
  every multiple \<open>y\<close> of 4 from 0 below \<open>sz\<close> in increasing order, when \<open>sz \<ge> 128\<close>, and
  there is no such call otherwise; below 128 the scan line pass returns the heap it was
  given.
\<close>

theorem scan_lines_iff_size:
  "calls_in_colour [0, 0, 0, 15] (returned_canvas (create_cyberpunk_icon sz H))
     = (if sz \<ge> 128 then map (\<lambda>y. Line (0, y) (sz, y) [0, 0, 0, 15] 1) (py_range 0 sz 4) else [])
   \<and> set (py_range 0 sz 4) = {y. 0 \<le> y \<and> y < sz \<and> 4 dvd y}
   \<and> sorted (py_range 0 sz 4) \<and> distinct (py_range 0 sz 4)
   \<and> (calls_in_colour [0, 0, 0, 15] (returned_canvas (create_cyberpunk_icon sz H)) \<noteq> []) = (sz \<ge> 128)
   \<and> (sz < 128 \<longrightarrow> scan_lines sz draw H' = H')"
proof -
  have s: "set (py_range 0 sz 4) = {y. 0 \<le> y \<and> y < sz \<and> 4 dvd y}"
    by (subst py_range_up_set) simp_all
  have o: "sorted (py_range a sz 4) \<and> distinct (py_range a sz 4)" for a
  proof (induction a sz "4 :: int" rule: py_range.induct)
    case (1 start stop)
    show ?case
    proof (cases "start < stop")
      case False
      then show ?thesis by (simp add: py_range_up_empty)
    next
      case True
      have u: "py_range start stop 4 = start # py_range (start + 4) stop 4"
        using True by (subst py_range.simps) simp
      have "\<forall>y \<in> set (py_range (start + 4) stop 4). start < y"
        by (simp add: py_range_up_mem)
      with 1(1) True show ?thesis
        by (auto simp: u)
    qed
  qed
  have n: "(calls_in_colour [0, 0, 0, 15] (returned_canvas (create_cyberpunk_icon sz H)) \<noteq> [])
      = (sz \<ge> 128)"
  proof (cases "sz \<ge> 128")
    case True
    then have "py_range 0 sz 4 \<noteq> []"
      by (intro py_range_up_nonempty) simp_all
    with True show ?thesis
      by (simp add: scan_colour_calls scan_line_calls_def)
  next
    case False
    then show ?thesis
      by (simp add: scan_colour_calls)
  qed
  have u: "sz < 128 \<longrightarrow> scan_lines sz draw H' = H'"
    by (simp add: scan_lines_def)
  show ?thesis
    using s o [of 0] n u
    by (simp only: scan_colour_calls scan_line_calls_def simp_thms)
qed

text \<open>Size 64 is below 128: the pass changes nothing and the canvas has no scan line.\<close>

theorem scan_lines_iff_size_witness:
  "(64::int) < 128
   \<and> scan_lines 64 0 [\<lparr>im_mode = ''RGBA'', im_size = (64, 64), im_color = [10, 10, 15], im_calls = []\<rparr>]
       = [\<lparr>im_mode = ''RGBA'', im_size = (64, 64), im_color = [10, 10, 15], im_calls = []\<rparr>]
   \<and> calls_in_colour [0, 0, 0, 15] (returned_canvas (create_cyberpunk_icon 64 [])) = []"
proof -
  have h: "(64::int) < 128" by simp
  from scan_lines_iff_size [of 64 "[]" 0
      "[\<lparr>im_mode = ''RGBA'', im_size = (64, 64), im_color = [10, 10, 15], im_calls = []\<rparr>]"] h
  show ?thesis by simp
qed

section \<open>Bounds of the tile grid\<close>

lemma tile_geometry_div:
  assumes "0 \<le> sz"
  shows "grid_padding sz = (100 * sz) div 512" "cell_gap sz = (16 * sz) div 512"
    "cell_size sz = ((sz - 2 * ((100 * sz) div 512)) - (16 * sz) div 512) div 2"
  using assms by (simp_all add: grid_padding_def cell_gap_def cell_size_def grid_size_def py_int_scale)

lemma tile_geometry_bounds:
  assumes "16 \<le> sz"
  shows "2 \<le> grid_padding sz" "0 \<le> cell_gap sz" "0 < cell_size sz"
    "grid_padding sz + cell_size sz + cell_gap sz + cell_size sz + 2 \<le> sz"
proof -
  have nn: "0 \<le> sz" using assms by simp
  show "2 \<le> grid_padding sz" "0 \<le> cell_gap sz" "0 < cell_size sz"
    "grid_padding sz + cell_size sz + cell_gap sz + cell_size sz + 2 \<le> sz"
    unfolding tile_geometry_div [OF nn] using assms by linarith+
qed

lemma tile_position_cases:
  assumes "i < 4" and "(tx, ty) = tile_positions sz ! i"
  shows "(tx = grid_padding sz \<or> tx = grid_padding sz + cell_size sz + cell_gap sz)
       \<and> (ty = grid_padding sz \<or> ty = grid_padding sz + cell_size sz + cell_gap sz)"
proof -
  from assms(1) consider "i = 0" | "i = 1" | "i = 2" | "i = 3" by linarith
  then show ?thesis
    using assms(2) by cases (simp_all add: tile_positions_def)
qed

lemma logs_within_tile_grid:
  assumes "16 \<le> sz"
  shows "logs (coords_within 0 sz) (tile_grid sz)"
proof (rule logs_tile_grid)
  fix i :: nat and tx ty
  assume "i < 4" and "(tx, ty) = tile_positions sz ! i"
  then have p: "(tx = grid_padding sz \<or> tx = grid_padding sz + cell_size sz + cell_gap sz)
       \<and> (ty = grid_padding sz \<or> ty = grid_padding sz + cell_size sz + cell_gap sz)"
    by (rule tile_position_cases)
  note b = tile_geometry_bounds [OF assms]
  have lo: "2 \<le> tx" "2 \<le> ty"
    using p b by linarith+
  have hi: "tx + cell_size sz + 2 \<le> sz" "ty + cell_size sz + 2 \<le> sz"
    using p b by linarith+
  have cs: "0 < cell_size sz" by (rule b(3))
  show "logs (coords_within 0 sz) (\<lambda>draw. draw_cell sz draw (i, tx, ty))"
  proof (rule logs_draw_cell)
    fix g :: int assume "g \<in> {2, 1}"
    then have g: "1 \<le> g" "g \<le> 2" by auto
    show "list_all (coords_within 0 sz)
        (rounded_rect_log (tx - g) (ty - g) (tx + cell_size sz + g) (ty + cell_size sz + g)
          (py_int (12 * scale sz) + g) (tile_colors ! i @ [60 - g * 20]) (max 1 (py_int (2 * scale sz))))"
      using lo hi cs g by (intro rounded_rect_log_within) linarith+
  next
    show "list_all (coords_within 0 sz)
        (filled_rounded_rect_log tx ty (tx + cell_size sz) (ty + cell_size sz)
          (py_int (12 * scale sz)) (tile_colors ! i @ [40]))"
      using lo hi cs by (intro filled_rounded_rect_log_within) linarith+
  next
    show "list_all (coords_within 0 sz)
        (rounded_rect_log tx ty (tx + cell_size sz) (ty + cell_size sz)
          (py_int (12 * scale sz)) (tile_colors ! i @ [220]) (max 1 (py_int (3 * scale sz))))"
      using lo hi cs by (intro rounded_rect_log_within) linarith+
  qed
qed

lemma SIZES_at_least_16: "(sz, tag, filename) \<in> set SIZES \<Longrightarrow> 16 \<le> sz"
  by (auto simp: SIZES_def)

section \<open>Geometry of the tile cells\<close>

text \<open>
  C10: for every size \<open>sz\<close> of the table, the cell size
  \<open>((sz - 2 * int(100 * sz / 512)) - int(16 * sz / 512)) // 2\<close> is strictly positive, every
  cell rectangle widened by the largest glow offset 2 lies within \<open>[0, sz]\<close> in both
  directions, and every coordinate of every call the tile grid pass makes (the glow
  outlines, the fill and the border of each cell) lies within \<open>[0, sz]\<close>.
\<close>

theorem tile_cells_in_bounds:
  assumes "(sz, tag, filename) \<in> set SIZES" and "draw < length H"
  shows "0 < cell_size sz
       \<and> cell_size sz = ((sz - 2 * ((100 * sz) div 512)) - (16 * sz) div 512) div 2
       \<and> list_all (\<lambda>(tx, ty). 0 \<le> tx - 2 \<and> 0 \<le> ty - 2
                      \<and> tx + cell_size sz + 2 \<le> sz \<and> ty + cell_size sz + 2 \<le> sz)
            (tile_positions sz)
       \<and> list_all (coords_within 0 sz) (drawn_by (tile_grid sz draw) draw H)"
proof -
  have sz: "16 \<le> sz"
    using assms(1) by (rule SIZES_at_least_16)
  note b = tile_geometry_bounds [OF sz]
  have 1: "0 < cell_size sz" by (rule b(3))
  have 2: "cell_size sz = ((sz - 2 * ((100 * sz) div 512)) - (16 * sz) div 512) div 2"
    using sz by (intro tile_geometry_div) simp
  have 3: "list_all (\<lambda>(tx, ty). 0 \<le> tx - 2 \<and> 0 \<le> ty - 2
                      \<and> tx + cell_size sz + 2 \<le> sz \<and> ty + cell_size sz + 2 \<le> sz)
            (tile_positions sz)"
    using b by (simp add: tile_positions_def)
  obtain cs where cs: "list_all (coords_within 0 sz) cs"
      "\<And>draw H. tile_grid sz draw H = fold (record_call draw) cs H"
    using logs_within_tile_grid [OF sz] by (rule logsE) blast
  have "drawn_by (tile_grid sz draw) draw H = cs"
    using assms(2) cs(2) by (rule drawn_by_fold)
  with cs(1) have 4: "list_all (coords_within 0 sz) (drawn_by (tile_grid sz draw) draw H)"
    by simp
  show ?thesis
    using 1 2 3 4 by (intro conjI)
qed

text \<open>Size 16, the smallest of the table: the cells are 5 pixels wide.\<close>

theorem tile_cells_in_bounds_witness:
  "(16, ''1x'', ''icon_16x16.png'') \<in> set SIZES
   \<and> (0::nat) < length [\<lparr>im_mode = ''RGBA'', im_size = (16, 16), im_color = [10, 10, 15], im_calls = []\<rparr>]
   \<and> cell_size 16 = 5
   \<and> list_all (coords_within 0 16)
        (drawn_by (tile_grid 16 0) 0
           [\<lparr>im_mode = ''RGBA'', im_size = (16, 16), im_color = [10, 10, 15], im_calls = []\<rparr>])"
proof -
  let ?H = "[\<lparr>im_mode = ''RGBA'', im_size = (16, 16), im_color = [10, 10, 15], im_calls = []\<rparr>]"
  have h1: "(16, ''1x'', ''icon_16x16.png'') \<in> set SIZES"
    by (simp add: SIZES_def)
  have h2: "(0::nat) < length ?H"
    by simp
  note t = tile_cells_in_bounds [OF h1 h2]
  from t have "cell_size 16 = ((16 - 2 * ((100 * 16) div 512)) - (16 * 16) div 512) div 2"
    by blast
  then have c: "cell_size 16 = 5"
    by simp
  from t have "list_all (coords_within 0 16) (drawn_by (tile_grid 16 0) 0 ?H)"
    by blast
  with h1 h2 c show ?thesis
    by blast
qed

section \<open>Evaluating the manifest\<close>

lemma py_str_table:
  "py_str 16 = ''16''" "py_str 32 = ''32''" "py_str 128 = ''128''" "py_str 256 = ''256''"
  "py_str 512 = ''512''"
  by (simp_all add: py_str_def str_nat.simps digit_chars_def)

lemma generate_contents_json_images:
  "images generate_contents_json =
     [\<lparr>e_filename = ''icon_16x16.png'', e_idiom = ''mac'', e_scale = ''1x'', e_size = ''16x16''\<rparr>,
      \<lparr>e_filename = ''icon_16x16@2x.png'', e_idiom = ''mac'', e_scale = ''2x'', e_size = ''16x16''\<rparr>,
      \<lparr>e_filename = ''icon_32x32.png'', e_idiom = ''mac'', e_scale = ''1x'', e_size = ''32x32''\<rparr>,
      \<lparr>e_filename = ''icon_32x32@2x.png'', e_idiom = ''mac'', e_scale = ''2x'', e_size = ''32x32''\<rparr>,
      \<lparr>e_filename = ''icon_128x128.png'', e_idiom = ''mac'', e_scale = ''1x'', e_size = ''128x128''\<rparr>,
      \<lparr>e_filename = ''icon_128x128@2x.png'', e_idiom = ''mac'', e_scale = ''2x'', e_size = ''128x128''\<rparr>,
      \<lparr>e_filename = ''icon_256x256.png'', e_idiom = ''mac'', e_scale = ''1x'', e_size = ''256x256''\<rparr>,
      \<lparr>e_filename = ''icon_256x256@2x.png'', e_idiom = ''mac'', e_scale = ''2x'', e_size = ''256x256''\<rparr>,
      \<lparr>e_filename = ''icon_512x512.png'', e_idiom = ''mac'', e_scale = ''1x'', e_size = ''512x512''\<rparr>,
      \<lparr>e_filename = ''icon_512x512@2x.png'', e_idiom = ''mac'', e_scale = ''2x'', e_size = ''512x512''\<rparr>]"
  by (simp add: generate_contents_json_def SIZES_def py_str_table)

section \<open>The manifest\<close>

text \<open>
  C1: the manifest has one entry per row of the size table, in table order; each
  entry carries the row's filename, the idiom \<open>mac\<close>, the row's scale tag and the size
  string \<open>WxW\<close> with \<open>W\<close> half the pixel size for the tag \<open>2x\<close> and the pixel size for the
  tag \<open>1x\<close>, so \<open>16x16\<close> for the \<open>2x\<close> row of pixel size 32 and \<open>512x512\<close> for the \<open>1x\<close> row
  of pixel size 512; the info object has author \<open>xcode\<close> and version 1.
\<close>

theorem manifest_follows_size_table:
  "images generate_contents_json
     = map (\<lambda>(sz, scale_tag, filename).
              \<lparr>e_filename = filename, e_idiom = ''mac'', e_scale = scale_tag,
               e_size = py_str (if scale_tag = ''2x'' then sz div 2 else sz) @ ''x''
                        @ py_str (if scale_tag = ''2x'' then sz div 2 else sz)\<rparr>) SIZES
   \<and> length (images generate_contents_json) = length SIZES
   \<and> length SIZES = 10
   \<and> list_all (\<lambda>(sz, scale_tag, filename). scale_tag = ''1x'' \<or> scale_tag = ''2x'') SIZES
   \<and> SIZES ! 1 = (32, ''2x'', ''icon_16x16@2x.png'')
   \<and> images generate_contents_json ! 1
       = \<lparr>e_filename = ''icon_16x16@2x.png'', e_idiom = ''mac'', e_scale = ''2x'', e_size = ''16x16''\<rparr>
   \<and> SIZES ! 8 = (512, ''1x'', ''icon_512x512.png'')
   \<and> images generate_contents_json ! 8
       = \<lparr>e_filename = ''icon_512x512.png'', e_idiom = ''mac'', e_scale = ''1x'', e_size = ''512x512''\<rparr>
   \<and> info generate_contents_json = \<lparr>author = ''xcode'', version = 1\<rparr>"
proof -
  have m: "images generate_contents_json
     = map (\<lambda>(sz, scale_tag, filename).
              \<lparr>e_filename = filename, e_idiom = ''mac'', e_scale = scale_tag,
               e_size = py_str (if scale_tag = ''2x'' then sz div 2 else sz) @ ''x''
                        @ py_str (if scale_tag = ''2x'' then sz div 2 else sz)\<rparr>) SIZES"
    unfolding generate_contents_json_images by (simp add: SIZES_def py_str_table)
  have l: "length (images generate_contents_json) = length SIZES"
    by (simp only: m length_map)
  have t: "length SIZES = 10"
    "list_all (\<lambda>(sz, scale_tag, filename). scale_tag = ''1x'' \<or> scale_tag = ''2x'') SIZES"
    "SIZES ! 1 = (32, ''2x'', ''icon_16x16@2x.png'')"
    "SIZES ! 8 = (512, ''1x'', ''icon_512x512.png'')"
    by (simp_all add: SIZES_def)
  have e: "images generate_contents_json ! 1
       = \<lparr>e_filename = ''icon_16x16@2x.png'', e_idiom = ''mac'', e_scale = ''2x'', e_size = ''16x16''\<rparr>"
    "images generate_contents_json ! 8
       = \<lparr>e_filename = ''icon_512x512.png'', e_idiom = ''mac'', e_scale = ''1x'', e_size = ''512x512''\<rparr>"
    unfolding generate_contents_json_images by simp_all
  have i: "info generate_contents_json = \<lparr>author = ''xcode'', version = 1\<rparr>"
    by (simp add: generate_contents_json_def Let_def)
  show ?thesis
    using m l t e i by (intro conjI)
qed

end
